theory Spec2Isabelle
  imports Main
begin

section \<open>Lil-Cheetah: route compiler, matcher and dispatch pipeline\<close>

text \<open>
  A shallow embedding of \<^verbatim>\<open>src/index.js\<close> (class \<^verbatim>\<open>LilCheetah\<close>).
  JavaScript strings are modelled as \<^typ>\<open>string\<close>, arrays as lists, objects used as
  dictionaries as maps, \<^verbatim>\<open>undefined\<close> as \<^term>\<open>None\<close>, and every exception as a
  value of \<open>js_error\<close> on the left of a sum.
\<close>

subsection \<open>Constants\<close>

definition SEPARATOR :: string where
  "SEPARATOR = ''/''"

definition SLASH :: nat where "SLASH = 47"
definition COLON :: nat where "COLON = 58"
definition ASTERIX :: nat where "ASTERIX = 42"
definition QUESTION_MARK :: nat where "QUESTION_MARK = 63"
definition ZERO_WIDTH :: nat where "ZERO_WIDTH = 65279"
definition TABULATION :: nat where "TABULATION = 9"
definition NEW_LINE :: nat where "NEW_LINE = 10"
definition FORM_FEED :: nat where "FORM_FEED = 12"
definition CARRIAGE_RETURN :: nat where "CARRIAGE_RETURN = 13"
definition SPACE :: nat where "SPACE = 20"
definition POUND :: nat where "POUND = 23"
definition NO_BREAK_SPACE :: nat where "NO_BREAK_SPACE = 160"

datatype match_type = STATIC | PARAMETER | ANY | OPTIONAL

datatype js_error =
  Error string | RangeError string | ReferenceError string | TypeError string

fun message :: "js_error \<Rightarrow> string" where
  "message (Error m) = m"
| "message (RangeError m) = m"
| "message (ReferenceError m) = m"
| "message (TypeError m) = m"

subsection \<open>String primitives of the host language\<close>

text \<open>
  \<^verbatim>\<open>str.charCodeAt(i)\<close> is \<^verbatim>\<open>NaN\<close> outside the string (also at index \<open>-1\<close>),
  modelled as \<^term>\<open>None\<close>; \<^verbatim>\<open>substring\<close> clamps both indices to the length and
  swaps them when they are out of order; \<^verbatim>\<open>str.split(sep)\<close> keeps empty pieces.
\<close>

definition charCodeAt :: "string \<Rightarrow> int \<Rightarrow> nat option" where
  "charCodeAt str i =
     (if 0 \<le> i \<and> i < int (length str) then Some (of_char (str ! nat i)) else None)"

definition substring :: "string \<Rightarrow> nat \<Rightarrow> nat \<Rightarrow> string" where
  "substring str a b =
     (let a' = min a (length str); b' = min b (length str);
          lo = min a' b'; hi = max a' b'
      in take (hi - lo) (drop lo str))"

definition substring_from :: "string \<Rightarrow> nat \<Rightarrow> string" where
  "substring_from str a = substring str a (length str)"

fun js_split :: "char \<Rightarrow> string \<Rightarrow> string list" where
  "js_split sep [] = [[]]"
| "js_split sep (c # cs) =
     (let r = js_split sep cs
      in if c = sep then [] # r else (c # hd r) # tl r)"

lemma js_split_not_empty: "js_split sep str \<noteq> []"
  by (induction str) (simp_all add: Let_def)

subsection \<open>Path normalisation: \<^verbatim>\<open>clean\<close> and \<^verbatim>\<open>split\<close>\<close>

function strip_leading :: "string \<Rightarrow> string" where
  "strip_leading str =
     (if charCodeAt str 0 = Some SLASH then strip_leading (substring_from str 1) else str)"
  by pat_completeness auto
termination
  by (relation "measure length")
     (auto simp: charCodeAt_def substring_from_def substring_def split: if_splits)

function strip_trailing :: "string \<Rightarrow> string" where
  "strip_trailing str =
     (if charCodeAt str (int (length str) - 1) = Some SLASH
      then strip_trailing (substring str 0 (length str - 1)) else str)"
  by pat_completeness auto
termination
  by (relation "measure length")
     (auto simp: charCodeAt_def substring_def split: if_splits)

declare strip_leading.simps [simp del] strip_trailing.simps [simp del]

definition clean :: "string \<Rightarrow> string" where
  "clean str =
     (if str = SEPARATOR then str
      else let str1 = strip_leading str; str2 = strip_trailing str1
           in if str2 = [] then SEPARATOR else str2)"

text \<open>The static method \<^verbatim>\<open>split\<close> is \<open>split_url\<close> here.\<close>

definition split_url :: "string \<Rightarrow> string list" where
  "split_url str =
     (let str' = clean str
      in if str' = SEPARATOR then [SEPARATOR] else js_split (CHR ''/'') str')"

subsection \<open>The pattern compiler: \<^verbatim>\<open>parseRoutePattern\<close>\<close>

record segment =
  seg_original :: string
  seg_type :: match_type
  seg_value :: string

text \<open>The inner \<^verbatim>\<open>while\<close> loop of the parameter branch: it returns the final
  \<^verbatim>\<open>index\<close>, \<^verbatim>\<open>reset_index\<close> and \<^verbatim>\<open>type\<close>.\<close>

function scan_parameter ::
  "string \<Rightarrow> nat \<Rightarrow> nat \<Rightarrow> nat \<Rightarrow> match_type \<Rightarrow> nat \<times> nat \<times> match_type" where
  "scan_parameter pattern pattern_length index reset_index type =
     (if index < pattern_length \<and> charCodeAt pattern (int index) \<noteq> Some SLASH
      then (if charCodeAt pattern (int index) = Some QUESTION_MARK
            then scan_parameter pattern pattern_length (index + 1) index OPTIONAL
            else scan_parameter pattern pattern_length (index + 1) reset_index type)
      else (index, reset_index, type))"
  by pat_completeness auto
termination
  by (relation "measure (\<lambda>(p, n, i, r, t). n - i)") auto

text \<open>The inner \<^verbatim>\<open>while\<close> loop of the static branch.\<close>

function scan_static :: "string \<Rightarrow> nat \<Rightarrow> nat \<Rightarrow> nat" where
  "scan_static pattern pattern_length index =
     (if index < pattern_length \<and> charCodeAt pattern (int index) \<noteq> Some SLASH
      then scan_static pattern pattern_length (index + 1)
      else index)"
  by pat_completeness auto
termination
  by (relation "measure (\<lambda>(p, n, i). n - i)") auto

declare scan_parameter.simps [simp del] scan_static.simps [simp del]

lemma scan_parameter_ge:
  "scan_parameter p n i r t = (i', r', t') \<Longrightarrow> i \<le> i' \<and> i' \<le> max i n"
proof (induction p n i r t rule: scan_parameter.induct)
  case (1 p n i r t)
  show ?case
  proof (cases "i < n \<and> charCodeAt p (int i) \<noteq> Some SLASH")
    case True
    with 1 show ?thesis
      by (subst (asm) (3) scan_parameter.simps) (auto split: if_splits)
  next
    case False
    with 1(3) show ?thesis
      by (subst (asm) scan_parameter.simps) auto
  qed
qed

lemma scan_static_ge: "i \<le> scan_static p n i \<and> scan_static p n i \<le> max i n"
proof (induction p n i rule: scan_static.induct)
  case (1 p n i)
  show ?case
  proof (cases "i < n \<and> charCodeAt p (int i) \<noteq> Some SLASH")
    case True
    with 1 show ?thesis
      by (subst scan_static.simps, subst (2) scan_static.simps) auto
  next
    case False
    then show ?thesis
      by (subst scan_static.simps, subst (2) scan_static.simps) auto
  qed
qed

lemma scan_parameter_colon:
  assumes "i < n" "charCodeAt p (int i) = Some COLON"
    and "scan_parameter p n i r t = (i', r', t')"
  shows "i < i' \<and> i' \<le> n"
proof -
  from assms(2) have ns: "charCodeAt p (int i) \<noteq> Some SLASH"
    by (simp add: COLON_def SLASH_def)
  from assms(2) have nq: "charCodeAt p (int i) \<noteq> Some QUESTION_MARK"
    by (simp add: COLON_def QUESTION_MARK_def)
  from assms(1,3) ns nq have "scan_parameter p n (i + 1) r t = (i', r', t')"
    by (subst (asm) scan_parameter.simps) simp
  from scan_parameter_ge[OF this] assms(1) show ?thesis by auto
qed

text \<open>The outer \<^verbatim>\<open>for\<close> loop. After a parameter or a static segment the source sets
  \<^verbatim>\<open>index = 0\<close> and the loop's own \<^verbatim>\<open>index++\<close> then makes it \<open>1\<close>.\<close>

function parse_loop ::
  "string \<Rightarrow> string \<Rightarrow> nat \<Rightarrow> nat \<Rightarrow> segment list \<Rightarrow> segment list" where
  "parse_loop original pattern pattern_length index result =
     (if index < pattern_length then
        (let current_char_code = charCodeAt pattern (int index) in
         if current_char_code = Some COLON then
           (case scan_parameter pattern pattern_length index 0 PARAMETER of
              (index', reset_index, type) \<Rightarrow>
                parse_loop original (substring_from pattern index')
                  (pattern_length - index') (0 + 1)
                  (result @ [\<lparr>seg_original = original, seg_type = type,
                     seg_value = substring pattern (index + 1)
                       (if reset_index = 0 then index' else reset_index)\<rparr>]))
         else if current_char_code = Some ASTERIX then
           parse_loop original pattern pattern_length (index + 1)
             (result @ [\<lparr>seg_original = original, seg_type = ANY,
                seg_value = substring_from pattern index\<rparr>])
         else
           (let start_index = index; index' = scan_static pattern pattern_length index in
            parse_loop original (substring_from pattern index')
              (pattern_length - index') (0 + 1)
              (result @ [\<lparr>seg_original = original, seg_type = STATIC,
                 seg_value = substring pattern start_index index'\<rparr>])))
      else result)"
  by pat_completeness auto
termination
proof (relation "measure (\<lambda>(original, pattern, pattern_length, index, result). pattern_length - index)",
    goal_cases)
  case 1
  show ?case by simp
next
  case (2 original pattern pattern_length index result x xa y xb ya)
  have run: "scan_parameter pattern pattern_length index 0 PARAMETER = (xa, xb, ya)"
    using 2 by simp
  have lt: "index < pattern_length"
    using 2 by simp
  have colon: "charCodeAt pattern (int index) = Some COLON"
    using 2 by simp
  from scan_parameter_colon[OF lt colon run] lt
  show ?case by simp arith
next
  case 3
  then show ?case by simp
next
  case (4 original pattern pattern_length index result x xa xb)
  then have "index < pattern_length" "xb = scan_static pattern pattern_length index"
    by simp_all
  with scan_static_ge[of index pattern pattern_length]
  show ?case by (simp add: max_def) arith
qed

declare parse_loop.simps [simp del]

definition parseRoutePattern :: "string \<Rightarrow> segment list" where
  "parseRoutePattern pattern0 =
     (let original = pattern0; pattern = clean pattern0
      in if pattern = SEPARATOR
         then [\<lparr>seg_original = original, seg_type = STATIC, seg_value = pattern\<rparr>]
         else parse_loop original pattern (length pattern) 0 [])"

subsection \<open>Handlers and routes\<close>

text \<open>
  Handlers are functions supplied by the user of the library. A handler is modelled by
  what it does when it is called with \<^verbatim>\<open>(request, response, nxt)\<close>: a finite script of
  synchronous actions (writing the response, calling the continuation with or without an
  error) followed by how the call ends: it throws, or it returns a value. A returned
  promise-like value may reject later; dispatch looks only at whether the value is truthy
  and has a callable \<^verbatim>\<open>catch\<close>.
\<close>

datatype action =
  End string                \<comment> \<open>\<^verbatim>\<open>response.end(body)\<close>\<close>
| Next "js_error option"    \<comment> \<open>\<^verbatim>\<open>nxt(error)\<close>; \<^term>\<open>None\<close> is \<^verbatim>\<open>nxt()\<close> or a falsy argument\<close>

datatype returned =
  Plain                     \<comment> \<open>a falsy value, or an object that never rejects\<close>
| Catchable "js_error option" \<comment> \<open>has a callable \<^verbatim>\<open>catch\<close>; rejects later with the error, if any\<close>
| Uncatchable "js_error option" \<comment> \<open>a thenable with no callable \<^verbatim>\<open>catch\<close>; rejects likewise\<close>

datatype completion = Throws js_error | Returns returned

record handler =
  label :: string
  body :: "action list"
  completion :: completion

record route =
  route_pattern :: "segment list"
  route_handlers :: "handler list"

subsection \<open>The matcher\<close>

definition isMatch :: "string option \<Rightarrow> segment \<Rightarrow> bool" where
  "isMatch url_piece pattern_piece =
     ((Some (seg_value pattern_piece) = url_piece \<and> seg_type pattern_piece = STATIC) \<or>
      (if url_piece = Some SEPARATOR
       then seg_type pattern_piece = OPTIONAL \<or> seg_type pattern_piece = ANY
       else seg_type pattern_piece \<noteq> STATIC))"

text \<open>\<^verbatim>\<open>url_pieces[index]\<close> is \<^verbatim>\<open>undefined\<close> past the end of the array.\<close>

definition at_index :: "'a list \<Rightarrow> nat \<Rightarrow> 'a option" where
  "at_index xs i = (if i < length xs then Some (xs ! i) else None)"

fun isFullMatch_from :: "string list \<Rightarrow> segment list \<Rightarrow> nat \<Rightarrow> bool" where
  "isFullMatch_from url_pieces [] index = True"
| "isFullMatch_from url_pieces (pattern_piece # rest) index =
     (if \<not> isMatch (at_index url_pieces index) pattern_piece then False
      else isFullMatch_from url_pieces rest (index + 1))"

definition isFullMatch :: "string list \<Rightarrow> segment list \<Rightarrow> bool" where
  "isFullMatch url_pieces pattern = isFullMatch_from url_pieces pattern 0"

text \<open>The loop of \<^verbatim>\<open>matchRoutePattern\<close> over the route sets. Reading
  \<^verbatim>\<open>pattern[pattern_length - 1].type\<close> of an empty pattern is a \<^verbatim>\<open>TypeError\<close>; the
  read happens only when \<^verbatim>\<open>pattern_length < pieces\<close> (or \<^verbatim>\<open>pattern_length > pieces\<close>,
  where the pattern is not empty).\<close>

fun matchRoutePattern_loop :: "string list \<Rightarrow> route list \<Rightarrow> js_error + route list" where
  "matchRoutePattern_loop url_pieces [] = Inr []"
| "matchRoutePattern_loop url_pieces (route_set # rest) =
     (let pieces = length url_pieces;
          pattern = route_pattern route_set;
          pattern_length = length pattern;
          equal_length = (pieces = pattern_length)
      in if pattern_length < pieces \<and> pattern = []
         then Inl (TypeError ''Cannot read property 'type' of undefined'')
         else
           (let pattern_less_but_any =
                  (pattern_length < pieces \<and> seg_type (last pattern) = ANY);
                pattern_more_but_optional =
                  (pattern_length > pieces \<and> seg_type (last pattern) = OPTIONAL)
            in if (equal_length \<or> pattern_less_but_any \<or> pattern_more_but_optional) \<and>
                  isFullMatch url_pieces pattern
               then Inr [route_set]
               else matchRoutePattern_loop url_pieces rest))"

definition matchRoutePattern :: "string \<Rightarrow> route list \<Rightarrow> js_error + route list" where
  "matchRoutePattern url route_sets =
     (let cleaned_url = clean url; url_pieces = split_url cleaned_url
      in matchRoutePattern_loop url_pieces route_sets)"

text \<open>\<^verbatim>\<open>exec\<close>: the \<^verbatim>\<open>forEach\<close> over the pattern pieces with their indices. A piece is
  recorded when it is not the separator and is truthy (defined and not empty); the type
  of the pattern piece is not looked at.\<close>

fun exec_from ::
  "string list \<Rightarrow> segment list \<Rightarrow> nat \<Rightarrow> (string \<rightharpoonup> string) \<Rightarrow> (string \<rightharpoonup> string)" where
  "exec_from url_pieces [] index parameters = parameters"
| "exec_from url_pieces (pattern_piece # rest) index parameters =
     exec_from url_pieces rest (index + 1)
       (case at_index url_pieces index of
          None \<Rightarrow> parameters
        | Some url_piece \<Rightarrow>
            if url_piece = SEPARATOR then parameters
            else if url_piece \<noteq> [] then parameters(seg_value pattern_piece \<mapsto> url_piece)
            else parameters)"

definition exec :: "string \<Rightarrow> segment list \<Rightarrow> (string \<rightharpoonup> string)" where
  "exec url pattern_pieces = exec_from (split_url url) pattern_pieces 0 Map.empty"

subsection \<open>The application object and registration\<close>

text \<open>
  The error handler given to the constructor is user code; it is modelled by its name, and
  calling it is recorded as an event. \<^verbatim>\<open>base_middlewares\<close> and \<^verbatim>\<open>routes\<close> are objects
  used as dictionaries. The keys of \<^verbatim>\<open>base_middlewares\<close> always start with a slash and
  the keys of \<^verbatim>\<open>routes\<close> are HTTP verbs or \<^verbatim>\<open>*\<close>, so no key meets a property
  inherited from \<^verbatim>\<open>Object.prototype\<close>. The transport (\<^verbatim>\<open>server\<close>, \<^verbatim>\<open>listen\<close>) is outside
  the model.
\<close>

datatype error_handler = DefaultErrorHandler | CustomErrorHandler string

record app =
  middlewares :: "handler list"
  base_middlewares :: "string \<rightharpoonup> handler list"
  routes :: "string \<rightharpoonup> route list"
  error_handler :: "error_handler option"

text \<open>The constructor, given \<^verbatim>\<open>options.error_handler\<close> if there is one.\<close>

definition new_app :: "string option \<Rightarrow> app" where
  "new_app options_error_handler =
     \<lparr>middlewares = [], base_middlewares = Map.empty, routes = Map.empty,
      error_handler = Some (case options_error_handler of
                              None \<Rightarrow> DefaultErrorHandler
                            | Some h \<Rightarrow> CustomErrorHandler h)\<rparr>"

definition or_empty :: "'a list option \<Rightarrow> 'a list" where
  "or_empty v = (case v of None \<Rightarrow> [] | Some xs \<Rightarrow> xs)"

definition appendSeparator :: "string \<Rightarrow> string" where
  "appendSeparator path =
     (if charCodeAt path 0 = Some SLASH then path else SEPARATOR @ path)"

text \<open>The first argument of \<^verbatim>\<open>use\<close> is a function or a path string.\<close>

datatype use_target = Function handler | Path string

fun use :: "app \<Rightarrow> use_target \<Rightarrow> handler list \<Rightarrow> app" where
  "use this (Function h) handlers =
     this\<lparr>middlewares := middlewares this @ (h # handlers)\<rparr>"
| "use this (Path path) handlers =
     (if path = SEPARATOR then this\<lparr>middlewares := middlewares this @ handlers\<rparr>
      else
        (let path' = appendSeparator path;
             bucket = or_empty (base_middlewares this path')
         in this\<lparr>base_middlewares := (base_middlewares this)(path' \<mapsto> bucket @ handlers)\<rparr>))"

definition addRoute :: "app \<Rightarrow> string \<Rightarrow> string \<Rightarrow> handler list \<Rightarrow> app" where
  "addRoute this method pattern handlers =
     (let parsed_pattern = parseRoutePattern pattern
      in this\<lparr>routes := (routes this)(method \<mapsto>
           or_empty (routes this method) @
             [\<lparr>route_pattern = parsed_pattern, route_handlers = handlers\<rparr>])\<rparr>)"

subsection \<open>\<^verbatim>\<open>findRoute\<close>\<close>

record route_set =
  params :: "string \<rightharpoonup> string"
  found_handlers :: "handler list"

text \<open>The result \<^verbatim>\<open>false\<close> is \<^term>\<open>None\<close>; the \<^verbatim>\<open>RangeError\<close> of the
  \<^verbatim>\<open>default\<close> branch is on the left.\<close>

definition findRoute :: "app \<Rightarrow> string \<Rightarrow> string \<Rightarrow> js_error + route_set option" where
  "findRoute this method url0 =
     (let url = clean url0;
          method_specific_routes = or_empty (routes this method);
          wildcard_routes = or_empty (routes this ''*'');
          all_routes = method_specific_routes @ wildcard_routes
      in case matchRoutePattern url all_routes of
           Inl e \<Rightarrow> Inl e
         | Inr matches \<Rightarrow>
             (case matches of
                [] \<Rightarrow> Inr None
              | [match] \<Rightarrow>
                  Inr (Some \<lparr>params = exec url (route_pattern match),
                             found_handlers = route_handlers match\<rparr>)
              | _ \<Rightarrow> Inl (RangeError (''Multiple handler matches for '' @ url))))"

subsection \<open>\<^verbatim>\<open>parseUrl\<close>\<close>

record parsed_url =
  pu_path :: "string option"
  pu_href :: "string option"
  pu_pathname :: "string option"
  pu_query :: "string option"
  pu_search :: "string option"

text \<open>The \<^verbatim>\<open>for\<close> loop of \<^verbatim>\<open>parseUrl\<close>; \<^term>\<open>None\<close> is the early
  \<^verbatim>\<open>return native_parse_url(url)\<close>. An empty \<^verbatim>\<open>search_string\<close> is falsy.\<close>

function parseUrl_loop ::
  "string \<Rightarrow> nat \<Rightarrow> string \<times> string option \<times> string option
     \<Rightarrow> (string \<times> string option \<times> string option) option" where
  "parseUrl_loop url index (pathname, query, search_string) =
     (if index < length url then
        (let c = charCodeAt url (int index) in
         if c = Some QUESTION_MARK then
           (if search_string = None \<or> search_string = Some []
            then parseUrl_loop url (index + 1)
                   (substring url 0 index, Some (substring_from url (index + 1)),
                    Some (substring_from url index))
            else parseUrl_loop url (index + 1) (pathname, query, search_string))
         else if c = Some TABULATION \<or> c = Some NEW_LINE \<or> c = Some FORM_FEED \<or>
                 c = Some CARRIAGE_RETURN \<or> c = Some SPACE \<or> c = Some POUND \<or>
                 c = Some NO_BREAK_SPACE \<or> c = Some ZERO_WIDTH
         then None
         else parseUrl_loop url (index + 1) (pathname, query, search_string))
      else Some (pathname, query, search_string))"
  by pat_completeness auto
termination
  by (relation "measure (\<lambda>(url, index, vars). length url - index)") auto

declare parseUrl_loop.simps [simp del]

text \<open>\<^verbatim>\<open>native_parse_url\<close> is Node's \<^verbatim>\<open>url.parse\<close>, an external collaborator: it is a
  parameter of the model. Request URLs are strings.\<close>

definition parseUrl :: "(string \<Rightarrow> parsed_url) \<Rightarrow> string \<Rightarrow> parsed_url" where
  "parseUrl native_parse_url url =
     (if charCodeAt url 0 \<noteq> Some SLASH then native_parse_url url
      else case parseUrl_loop url 0 (url, None, None) of
             None \<Rightarrow> native_parse_url url
           | Some (pathname, query, search_string) \<Rightarrow>
               \<lparr>pu_path = Some url, pu_href = Some url, pu_pathname = Some pathname,
                pu_query = query, pu_search = search_string\<rparr>)"

subsection \<open>The dispatch pipeline: \<^verbatim>\<open>handleRequest\<close>\<close>

text \<open>
  The request object carries the fields dispatch reads and writes. The response object is
  only written through \<^verbatim>\<open>response.end\<close>; each such call is an event of the trace, as is
  each call of a handler (with the request it was given and whether it got a
  continuation), each error leaving a handler, each error passed to the continuation,
  each rejection delivered to the attached callback, and each call of an error handler
  (the default one or a user-supplied one).
\<close>

record request =
  req_url :: string
  req_method :: string
  req_path :: "string option"
  req_query :: "string option"
  req_search :: "string option"

datatype event =
  ResponseEnd string
| Called handler request bool
| Threw string js_error
| PassedError string js_error
| Rejected string js_error
| ErrorHandlerCalled error_handler js_error

record dispatch =
  d_request :: request
  handler_index :: nat
  trace :: "event list"
  attached :: "(string \<times> js_error option) list"

definition emit :: "event \<Rightarrow> dispatch \<Rightarrow> dispatch" where
  "emit ev st = st\<lparr>trace := trace st @ [ev]\<rparr>"

definition defaultErrorHandler :: "js_error \<Rightarrow> dispatch \<Rightarrow> dispatch" where
  "defaultErrorHandler error st =
     emit (ResponseEnd (message error)) (emit (ErrorHandlerCalled DefaultErrorHandler error) st)"

text \<open>Calling the function stored in \<^verbatim>\<open>this.error_handler\<close>: the bound default, or the
  user's function, of which only the call is recorded. Errors are objects with a
  \<^verbatim>\<open>message\<close>, and an error handler returns normally.\<close>

definition call_error_handler :: "error_handler \<Rightarrow> js_error \<Rightarrow> dispatch \<Rightarrow> dispatch" where
  "call_error_handler h error st =
     (case h of
        DefaultErrorHandler \<Rightarrow> defaultErrorHandler error st
      | CustomErrorHandler name \<Rightarrow> emit (ErrorHandlerCalled (CustomErrorHandler name) error) st)"

definition handleError :: "app \<Rightarrow> js_error \<Rightarrow> dispatch \<Rightarrow> dispatch" where
  "handleError this error st =
     (case error_handler this of
        Some h \<Rightarrow> call_error_handler h error st
      | None \<Rightarrow> defaultErrorHandler error st)"

definition catchError :: "app \<Rightarrow> js_error \<Rightarrow> dispatch \<Rightarrow> dispatch" where
  "catchError this error st = handleError this error st"

text \<open>
  A handler that is running is a frame of the call stack: its label, whether it was given
  a continuation, the actions it has still to do, and how it ends. What follows the call
  of a handler inside the \<^verbatim>\<open>try\<close> block is \<open>finish\<close>: a thrown error goes to
  \<^verbatim>\<open>handleError\<close>; a returned value with a callable \<^verbatim>\<open>catch\<close> gets the callback
  \<^verbatim>\<open>catchError\<close> attached.
\<close>

datatype frame = Frame string bool "action list" completion

definition finish :: "app \<Rightarrow> string \<Rightarrow> completion \<Rightarrow> dispatch \<Rightarrow> dispatch" where
  "finish this l c st =
     (case c of
        Throws e \<Rightarrow> handleError this e (emit (Threw l e) st)
      | Returns Plain \<Rightarrow> st
      | Returns (Catchable r) \<Rightarrow> st\<lparr>attached := attached st @ [(l, r)]\<rparr>
      | Returns (Uncatchable r) \<Rightarrow> st)"

text \<open>The closure \<^verbatim>\<open>loop\<close> up to the call of the handler: it picks the continuation,
  reads \<^verbatim>\<open>handlers[handler_index++]\<close> and calls it. Calling \<^verbatim>\<open>undefined\<close> (an index past
  the end) is a \<^verbatim>\<open>TypeError\<close> caught by the \<^verbatim>\<open>try\<close> block.\<close>

definition loop :: "app \<Rightarrow> handler list \<Rightarrow> dispatch \<Rightarrow> frame list \<times> dispatch" where
  "loop this handlers st =
     (let handlers_length = length handlers;
          i = handler_index st;
          nxt = (int i \<noteq> int handlers_length - 1);
          st' = st\<lparr>handler_index := i + 1\<rparr>
      in case at_index handlers i of
           None \<Rightarrow>
             ([], handleError this
                    (TypeError ''handlers[handler_index++] is not a function'') st')
         | Some h \<Rightarrow>
             ([Frame (label h) nxt (body h) (completion h)],
              emit (Called h (d_request st') nxt) st'))"

definition frame_size :: "frame \<Rightarrow> nat" where
  "frame_size f = (case f of Frame l nxt as c \<Rightarrow> length as + 1)"

definition run_measure :: "handler list \<Rightarrow> frame list \<Rightarrow> dispatch \<Rightarrow> nat" where
  "run_measure handlers stack st =
     sum_list (map frame_size stack) +
     sum_list (map (\<lambda>h. length (body h) + 2) (drop (handler_index st) handlers))"

lemma handler_index_emit [simp]: "handler_index (emit ev st) = handler_index st"
  by (simp add: emit_def)

lemma handler_index_handleError [simp]:
  "handler_index (handleError this e st) = handler_index st"
  by (simp add: handleError_def call_error_handler_def defaultErrorHandler_def
      split: option.splits error_handler.splits)

lemma handler_index_finish [simp]: "handler_index (finish this l c st) = handler_index st"
  by (simp add: finish_def split: completion.splits returned.splits)

lemma run_measure_loop:
  "loop this handlers st = (new, st') \<Longrightarrow>
   run_measure handlers (new @ stack) st' < Suc (run_measure handlers stack st)"
proof (cases "handler_index st < length handlers")
  case True
  assume "loop this handlers st = (new, st')"
  with True have new: "new = [Frame (label (handlers ! handler_index st)) 
        (int (handler_index st) \<noteq> int (length handlers) - 1)
        (body (handlers ! handler_index st)) (completion (handlers ! handler_index st))]"
    and idx: "handler_index st' = handler_index st + 1"
    by (auto simp: loop_def Let_def at_index_def)
  from True have "drop (handler_index st) handlers =
      handlers ! handler_index st # drop (handler_index st + 1) handlers"
    by (simp add: Cons_nth_drop_Suc)
  with new idx show ?thesis
    by (simp add: run_measure_def frame_size_def)
next
  case False
  assume "loop this handlers st = (new, st')"
  with False have "new = []" "handler_index st' = handler_index st + 1"
    by (auto simp: loop_def Let_def at_index_def)
  with False show ?thesis
    by (simp add: run_measure_def)
qed

lemma run_measure_next:
  assumes "(new, st') = loop this handlers st"
  shows "run_measure handlers (new @ Frame l nxt as c # stack) st'
         < run_measure handlers (Frame l nxt (a # as) c # stack) st"
proof -
  from assms have "loop this handlers st = (new, st')"
    by simp
  from run_measure_loop[OF this, of "Frame l nxt as c # stack"]
  show ?thesis by (simp add: run_measure_def frame_size_def)
qed

text \<open>
  The synchronous execution of the chain, as a machine over the call stack. A handler
  calling \<^verbatim>\<open>nxt()\<close> runs \<^verbatim>\<open>loop\<close>, which calls the next handler on top of it; when that
  call is over the caller goes on. Calling \<^verbatim>\<open>nxt(error)\<close> runs \<^verbatim>\<open>handleError\<close> and returns
  to the caller. When the handler got no continuation, \<^verbatim>\<open>nxt\<close> is \<^verbatim>\<open>undefined\<close> and the
  call is a \<^verbatim>\<open>TypeError\<close> thrown inside the handler, which ends it.
\<close>

function run :: "app \<Rightarrow> handler list \<Rightarrow> frame list \<Rightarrow> dispatch \<Rightarrow> dispatch" where
  "run this handlers [] st = st"
| "run this handlers (Frame l nxt [] c # stack) st =
     run this handlers stack (finish this l c st)"
| "run this handlers (Frame l nxt (End b # as) c # stack) st =
     run this handlers (Frame l nxt as c # stack) (emit (ResponseEnd b) st)"
| "run this handlers (Frame l nxt (Next arg # as) c # stack) st =
     (if \<not> nxt then
        run this handlers stack
          (finish this l (Throws (TypeError ''nxt is not a function'')) st)
      else
        (case arg of
           Some error \<Rightarrow>
             run this handlers (Frame l nxt as c # stack)
               (handleError this error (emit (PassedError l error) st))
         | None \<Rightarrow>
             (case loop this handlers st of
                (new, st') \<Rightarrow> run this handlers (new @ Frame l nxt as c # stack) st')))"
  by pat_completeness auto
termination
proof (relation "measure (\<lambda>(this, handlers, stack, st). run_measure handlers stack st)",
    goal_cases)
  case 1
  show ?case by simp
next
  case 2
  show ?case by (simp add: run_measure_def frame_size_def)
next
  case 3
  show ?case by (simp add: run_measure_def frame_size_def)
next
  case 4
  show ?case by (simp add: run_measure_def frame_size_def)
next
  case 5
  then show ?case by (simp add: run_measure_next)
next
  case 6
  show ?case by (simp add: run_measure_def frame_size_def)
qed

text \<open>Reading a \<^verbatim>\<open>const\<close> binding before its declaration has run (the temporal dead
  zone) throws a \<^verbatim>\<open>ReferenceError\<close>.\<close>

definition read_const :: "'a option \<Rightarrow> js_error + 'a" where
  "read_const binding =
     (case binding of
        None \<Rightarrow> Inl (ReferenceError ''Cannot access 'handlers' before initialization'')
      | Some v \<Rightarrow> Inr v)"

text \<open>
  \<^verbatim>\<open>handleRequest\<close>. An exception that leaves it (from \<^verbatim>\<open>findRoute\<close>, which is called
  outside every \<^verbatim>\<open>try\<close>; a missing pathname makes \<^verbatim>\<open>clean\<close> throw) is on the left. In
  the branch for no middleware and a single route handler, the source reads
  \<^verbatim>\<open>handlers[0]\<close>, and \<^verbatim>\<open>const handlers\<close> is declared only after that branch, in the
  same function body: the binding is still uninitialised there. The \<^verbatim>\<open>try\<close> around the
  first call of \<^verbatim>\<open>loop\<close> catches only what an error handler throws, since \<^verbatim>\<open>loop\<close>
  catches everything else itself; error handlers return normally here, so it has no
  branch.
\<close>

definition handleRequest ::
  "(string \<Rightarrow> parsed_url) \<Rightarrow> app \<Rightarrow> request \<Rightarrow> js_error + dispatch" where
  "handleRequest native_parse_url this request =
     (let parsed_url = parseUrl native_parse_url (req_url request);
          st0 = \<lparr>d_request = request, handler_index = 0, trace = [], attached = []\<rparr>
      in case pu_pathname parsed_url of
           None \<Rightarrow> Inl (TypeError ''Cannot read property 'charCodeAt' of null'')
         | Some pathname \<Rightarrow>
             (case findRoute this (req_method request) pathname of
                Inl e \<Rightarrow> Inl e
              | Inr None \<Rightarrow> Inr (emit (ResponseEnd ''404'') st0)
              | Inr (Some route_set) \<Rightarrow>
                  (let request' = request\<lparr>req_path := Some pathname,
                         req_query := pu_query parsed_url,
                         req_search := pu_search parsed_url\<rparr>;
                       st1 = st0\<lparr>d_request := request'\<rparr>;
                       middlewares = middlewares this;
                       route_handlers = found_handlers route_set
                   in if length middlewares = 0 \<and> length (found_handlers route_set) = 1
                      then
                        (case read_const (None :: handler list option) of
                           Inl e \<Rightarrow> Inr (handleError this e st1)
                         | Inr handlers \<Rightarrow>
                             (case at_index handlers 0 of
                                None \<Rightarrow>
                                  Inr (handleError this
                                         (TypeError ''handlers[0] is not a function'') st1)
                              | Some h \<Rightarrow>
                                  Inr (run this handlers
                                         [Frame (label h) False (body h) (completion h)]
                                         (emit (Called h request' False) st1))))
                      else
                        (let handlers = middlewares @ route_handlers
                         in case loop this handlers st1 of
                              (new, st2) \<Rightarrow> Inr (run this handlers new st2)))))"

text \<open>After the synchronous part, each attached callback whose promise rejects is run
  with the rejection: \<^verbatim>\<open>catchError(request, response, error)\<close>.\<close>

fun settle_from :: "app \<Rightarrow> (string \<times> js_error option) list \<Rightarrow> dispatch \<Rightarrow> dispatch" where
  "settle_from this [] st = st"
| "settle_from this ((l, None) # rest) st = settle_from this rest st"
| "settle_from this ((l, Some e) # rest) st =
     settle_from this rest (catchError this e (emit (Rejected l e) st))"

definition settle :: "app \<Rightarrow> dispatch \<Rightarrow> dispatch" where
  "settle this st = settle_from this (attached st) (st\<lparr>attached := []\<rparr>)"

subsection \<open>Predicates used to state the properties\<close>

text \<open>The error handler that \<^verbatim>\<open>handleError\<close> calls, and what a call of it adds to the
  trace: the call itself and, for the default handler, the response it writes.\<close>

definition effective_handler :: "app \<Rightarrow> error_handler" where
  "effective_handler this =
     (case error_handler this of Some h \<Rightarrow> h | None \<Rightarrow> DefaultErrorHandler)"

definition handling :: "error_handler \<Rightarrow> js_error \<Rightarrow> event list" where
  "handling h e =
     ErrorHandlerCalled h e #
       (if h = DefaultErrorHandler then [ResponseEnd (message e)] else [])"



text \<open>
  What a handler hands over, read off its script alone: the errors it passes to the
  continuation it was given, the error it throws (the \<^verbatim>\<open>TypeError\<close> of its first call of a
  continuation it was not given, or else the one it ends with), and the rejection of a
  returned value that has a callable \<^verbatim>\<open>catch\<close>.
\<close>

fun due :: "bool \<Rightarrow> action list \<Rightarrow> completion \<Rightarrow> js_error set" where
  "due nxt [] (Throws e) = {e}"
| "due nxt [] (Returns (Catchable (Some e))) = {e}"
| "due nxt [] (Returns r) = {}"
| "due nxt (End b # as) c = due nxt as c"
| "due nxt (Next arg # as) c =
     (if \<not> nxt then {TypeError ''nxt is not a function''}
      else (case arg of Some e \<Rightarrow> {e} | None \<Rightarrow> {}) \<union> due nxt as c)"

text \<open>The errors with which the error handler \<open>h\<close> is called in a trace, and the
  handlers called in it, in order.\<close>

fun handled :: "error_handler \<Rightarrow> event list \<Rightarrow> js_error list" where
  "handled h [] = []"
| "handled h (ErrorHandlerCalled h' e # t) = (if h' = h then e # handled h t else handled h t)"
| "handled h (ev # t) = handled h t"

fun called_handlers :: "event list \<Rightarrow> handler list" where
  "called_handlers [] = []"
| "called_handlers (Called h r n # t) = h # called_handlers t"
| "called_handlers (ev # t) = called_handlers t"

text \<open>The request with the three fields attached, and the states in which the request is
  \<open>r\<close> and every handler called so far was given \<open>r\<close>.\<close>

definition augmented :: "parsed_url \<Rightarrow> request \<Rightarrow> request" where
  "augmented parsed_url request =
     request\<lparr>req_path := pu_pathname parsed_url, req_query := pu_query parsed_url,
       req_search := pu_search parsed_url\<rparr>"

definition carries :: "request \<Rightarrow> event \<Rightarrow> bool" where
  "carries r ev = (case ev of Called l r' n \<Rightarrow> r' = r | _ \<Rightarrow> True)"

definition calls_ok :: "request \<Rightarrow> dispatch \<Rightarrow> bool" where
  "calls_ok r st = (d_request st = r \<and> list_all (carries r) (trace st))"

text \<open>A segment of the compiled form of the cleaned pattern \<open>full\<close>: the value of an Any
  segment is \<open>full\<close> from one of its asterisks onward; the value of any other segment
  holds no slash.\<close>

definition segment_ok :: "string \<Rightarrow> segment \<Rightarrow> bool" where
  "segment_ok full seg =
     (if seg_type seg = ANY
      then list_ex (\<lambda>k. full ! k = CHR ''*'' \<and> seg_value seg = drop k full) [0..<length full]
      else CHR ''/'' \<notin> set (seg_value seg))"

subsection \<open>An example application\<close>

text \<open>A stand-in for \<^verbatim>\<open>url.parse\<close> where its result does not matter, and an application
  with a user-supplied error handler, one global middleware and one route. The middleware
  passes an error to the continuation, then calls the continuation, and returns a promise
  that rejects; the route handler writes to the response and throws.\<close>

definition no_native :: "string \<Rightarrow> parsed_url" where
  "no_native url = \<lparr>pu_path = None, pu_href = None, pu_pathname = None, pu_query = None,
     pu_search = None\<rparr>"

definition example_middleware :: handler where
  "example_middleware =
     \<lparr>label = ''mA'', body = [Next (Some (Error ''passed'')), Next None],
      completion = Returns (Catchable (Some (Error ''rejected'')))\<rparr>"

definition example_handler :: handler where
  "example_handler =
     \<lparr>label = ''hB'', body = [End ''partial''], completion = Throws (Error ''thrown'')\<rparr>"

definition example_app :: app where
  "example_app =
     addRoute (use (new_app (Some ''onError'')) (Function example_middleware) [])
       ''GET'' ''/a'' [example_handler]"

definition example_request :: request where
  "example_request =
     \<lparr>req_url = ''/a?x=1'', req_method = ''GET'', req_path = None, req_query = None,
      req_search = None\<rparr>"

definition example_augmented :: request where
  "example_augmented =
     \<lparr>req_url = ''/a?x=1'', req_method = ''GET'', req_path = Some ''/a'',
      req_query = Some ''x=1'', req_search = Some ''?x=1''\<rparr>"

definition example_trace :: "event list" where
  "example_trace =
     [Called example_middleware example_augmented True,
      PassedError ''mA'' (Error ''passed''),
      ErrorHandlerCalled (CustomErrorHandler ''onError'') (Error ''passed''),
      Called example_handler example_augmented False,
      ResponseEnd ''partial'',
      Threw ''hB'' (Error ''thrown''),
      ErrorHandlerCalled (CustomErrorHandler ''onError'') (Error ''thrown'')]"



section \<open>Properties\<close>

subsection \<open>Evaluation of the string functions on the paths and patterns used below\<close>

lemmas char_codes =
  SLASH_def COLON_def ASTERIX_def QUESTION_MARK_def ZERO_WIDTH_def TABULATION_def
  NEW_LINE_def FORM_FEED_def CARRIAGE_RETURN_def SPACE_def POUND_def NO_BREAK_SPACE_def

lemma parse_a:
  "parseRoutePattern ''/a'' = [\<lparr>seg_original = ''/a'', seg_type = STATIC, seg_value = ''a''\<rparr>]"
  by code_simp

lemma parse_users_id:
  "parseRoutePattern ''/users/:id'' =
     [\<lparr>seg_original = ''/users/:id'', seg_type = STATIC, seg_value = ''users''\<rparr>,
      \<lparr>seg_original = ''/users/:id'', seg_type = PARAMETER, seg_value = ''id''\<rparr>]"
  by code_simp

lemma clean_slash_a: "clean ''/a'' = ''a''"
  by code_simp

lemma clean_a: "clean ''a'' = ''a''"
  by code_simp

lemma split_a: "split_url ''a'' = [''a'']"
  by code_simp

lemma clean_users_slash: "clean ''/users/'' = ''users''"
  by code_simp

lemma clean_users: "clean ''users'' = ''users''"
  by code_simp

lemma split_users: "split_url ''users'' = [''users'']"
  by code_simp

lemma clean_slash_users_42: "clean ''/users/42'' = ''users/42''"
  by code_simp

lemma clean_users_42: "clean ''users/42'' = ''users/42''"
  by code_simp

lemma split_users_42: "split_url ''users/42'' = [''users'', ''42'']"
  by code_simp

lemma parseUrl_loop_a: "parseUrl_loop ''/a'' 0 (''/a'', None, None) = Some (''/a'', None, None)"
  by (simp add: parseUrl_loop.simps charCodeAt_def char_codes)

lemma charCodeAt_a: "charCodeAt ''/a'' 0 = Some SLASH"
  by code_simp

lemma parseUrl_a:
  "parseUrl npu ''/a'' = \<lparr>pu_path = Some ''/a'', pu_href = Some ''/a'',
     pu_pathname = Some ''/a'', pu_query = None, pu_search = None\<rparr>"
  by (simp add: parseUrl_def parseUrl_loop_a charCodeAt_a)

subsection \<open>Registration\<close>

lemma routes_addRoute:
  "routes (addRoute this m p hs) =
   (routes this)(m \<mapsto> or_empty (routes this m) @
      [\<lparr>route_pattern = parseRoutePattern p, route_handlers = hs\<rparr>])"
  by (simp add: addRoute_def Let_def)

lemma middlewares_addRoute [simp]: "middlewares (addRoute this m p hs) = middlewares this"
  by (simp add: addRoute_def Let_def)

lemma error_handler_addRoute [simp]: "error_handler (addRoute this m p hs) = error_handler this"
  by (simp add: addRoute_def Let_def)

lemma routes_new_app: "routes (new_app eh) = Map.empty"
  by (simp add: new_app_def)

lemma middlewares_new_app: "middlewares (new_app eh) = []"
  by (simp add: new_app_def)

lemma error_handler_new_app:
  "error_handler (new_app eh) =
   Some (case eh of None \<Rightarrow> DefaultErrorHandler | Some h \<Rightarrow> CustomErrorHandler h)"
  by (simp add: new_app_def)

subsection \<open>The matcher returns at most one route\<close>

lemma matchRoutePattern_loop_at_most_one:
  "matchRoutePattern_loop url_pieces route_sets = Inr matches \<Longrightarrow> length matches \<le> 1"
  by (induction route_sets) (auto simp: Let_def split: if_splits)

lemma matchRoutePattern_loop_TypeError:
  "matchRoutePattern_loop url_pieces route_sets = Inl e \<Longrightarrow> \<exists>m. e = TypeError m"
  by (induction route_sets) (auto simp: Let_def split: if_splits)

lemma findRoute_no_RangeError: "findRoute this method url \<noteq> Inl (RangeError msg)"
proof
  assume a: "findRoute this method url = Inl (RangeError msg)"
  show False
  proof (cases "matchRoutePattern (clean url)
      (or_empty (routes this method) @ or_empty (routes this ''*''))")
    case (Inl e)
    with a have "e = RangeError msg"
      by (simp add: findRoute_def Let_def)
    moreover from Inl have "\<exists>m. e = TypeError m"
      by (auto simp: matchRoutePattern_def Let_def dest: matchRoutePattern_loop_TypeError)
    ultimately show False by auto
  next
    case (Inr matches)
    then have "length matches \<le> 1"
      by (auto simp: matchRoutePattern_def Let_def dest: matchRoutePattern_loop_at_most_one)
    with a Inr show False
      by (auto simp: findRoute_def Let_def split: list.splits)
  qed
qed

lemma match_a:
  "matchRoutePattern ''a''
     (\<lparr>route_pattern = parseRoutePattern ''/a'', route_handlers = hs\<rparr> # rest) =
   Inr [\<lparr>route_pattern = parseRoutePattern ''/a'', route_handlers = hs\<rparr>]"
  by (simp add: matchRoutePattern_def clean_a split_a parse_a Let_def isFullMatch_def
      isMatch_def at_index_def)

lemma exec_a: "exec ''a'' (parseRoutePattern ''/a'') = [''a'' \<mapsto> ''a'']"
  by (simp add: exec_def split_a parse_a at_index_def SEPARATOR_def)

lemma findRoute_single_a:
  "findRoute (addRoute (new_app eh) ''GET'' ''/a'' hs) ''GET'' ''/a''
   = Inr (Some \<lparr>params = [''a'' \<mapsto> ''a''], found_handlers = hs\<rparr>)"
  by (simp add: findRoute_def routes_addRoute routes_new_app or_empty_def clean_slash_a
      match_a exec_a Let_def)

text \<open>
  Claim C1 (the code does otherwise). Two identical registrations of \<^verbatim>\<open>GET /a\<close>, then
  a request for \<^verbatim>\<open>/a\<close>: \<^verbatim>\<open>matchRoutePattern\<close> returns from inside its loop at the
  first full match, so \<^verbatim>\<open>findRoute\<close> sees one match and returns the first
  registration's handlers; the \<^verbatim>\<open>RangeError\<close> of its \<^verbatim>\<open>default\<close> branch is not raised.
\<close>

theorem duplicate_registration_first_wins:
  "findRoute (addRoute (addRoute (new_app eh) ''GET'' ''/a'' hs1) ''GET'' ''/a'' hs2) ''GET'' ''/a''
   = Inr (Some \<lparr>params = [''a'' \<mapsto> ''a''], found_handlers = hs1\<rparr>)"
  by (simp add: findRoute_def routes_addRoute routes_new_app or_empty_def clean_slash_a
      match_a exec_a Let_def)

text \<open>
  Claim C2 (the code does otherwise). No global middleware and one route with a single
  handler \<open>h\<close>: the branch for this case reads \<^verbatim>\<open>handlers\<close> before its declaration, the
  \<^verbatim>\<open>ReferenceError\<close> is caught by the branch's own \<^verbatim>\<open>catch\<close> and given to the error
  handler. Whatever \<open>h\<close> is, it is never called: the trace holds no \<open>Called\<close> event,
  only the call of the default error handler and its response.
\<close>

theorem single_handler_is_not_called:
  "handleRequest npu (addRoute (new_app None) ''GET'' ''/a'' [h])
     \<lparr>req_url = ''/a'', req_method = ''GET'', req_path = None, req_query = None,
      req_search = None\<rparr>
   = Inr \<lparr>d_request = \<lparr>req_url = ''/a'', req_method = ''GET'', req_path = Some ''/a'',
              req_query = None, req_search = None\<rparr>,
          handler_index = 0,
          trace = [ErrorHandlerCalled DefaultErrorHandler
                     (ReferenceError ''Cannot access 'handlers' before initialization''),
                   ResponseEnd ''Cannot access 'handlers' before initialization''],
          attached = []\<rparr>"
  by (simp add: handleRequest_def parseUrl_a findRoute_single_a Let_def read_const_def
      handleError_def call_error_handler_def defaultErrorHandler_def emit_def
      middlewares_new_app error_handler_new_app)

lemma exec_users_42:
  "exec ''users/42'' (parseRoutePattern ''/users/:id'') =
   [''users'' \<mapsto> ''users'', ''id'' \<mapsto> ''42'']"
  by (simp add: exec_def split_users_42 parse_users_id at_index_def SEPARATOR_def)

lemma match_users_42:
  "matchRoutePattern ''users/42''
     [\<lparr>route_pattern = parseRoutePattern ''/users/:id'', route_handlers = hs\<rparr>] =
   Inr [\<lparr>route_pattern = parseRoutePattern ''/users/:id'', route_handlers = hs\<rparr>]"
  by (simp add: matchRoutePattern_def clean_users_42 split_users_42 parse_users_id Let_def
      isFullMatch_def isMatch_def at_index_def SEPARATOR_def)

text \<open>
  Claim C3 (the code does otherwise). \<^verbatim>\<open>exec\<close> records an entry at every position whose
  piece is defined, not empty and not the separator; it does not look at the type of the
  segment. Matching \<^verbatim>\<open>/users/42\<close> against \<^verbatim>\<open>/users/:id\<close> yields the two entries
  \<open>users \<mapsto> users\<close> and \<open>id \<mapsto> 42\<close>, the first of them from a Static segment.
\<close>

theorem users_42_params_include_static:
  "findRoute (addRoute (new_app eh) ''GET'' ''/users/:id'' hs) ''GET'' ''/users/42''
   = Inr (Some \<lparr>params = [''users'' \<mapsto> ''users'', ''id'' \<mapsto> ''42''],
                 found_handlers = hs\<rparr>)
   \<and> exec ''users/42'' (parseRoutePattern ''/users/:id'') ''users'' = Some ''users''"
  by (simp add: findRoute_def routes_addRoute routes_new_app or_empty_def clean_slash_users_42
      match_users_42 exec_users_42 Let_def)

text \<open>
  Claim C10. The path \<^verbatim>\<open>/users/\<close> is cleaned to \<^verbatim>\<open>users\<close>, a single piece; the pattern
  \<^verbatim>\<open>/users/:id\<close> has two segments and its last one is not Optional, so the route is not
  a candidate: the matcher returns no route, and \<^verbatim>\<open>findRoute\<close> returns \<^verbatim>\<open>false\<close>, for
  every method, handler list and error handler.
\<close>

theorem trailing_slash_no_match:
  "matchRoutePattern ''/users/''
     [\<lparr>route_pattern = parseRoutePattern ''/users/:id'', route_handlers = hs\<rparr>] = Inr []
   \<and> findRoute (addRoute (new_app eh) m ''/users/:id'' hs) m ''/users/'' = Inr None"
  by (simp add: matchRoutePattern_def findRoute_def addRoute_def new_app_def or_empty_def
      parse_users_id split_users clean_users clean_users_slash Let_def)

subsection \<open>The compiled segments\<close>

lemma substring_from_drop: "substring_from s a = drop a s"
  by (auto simp: substring_from_def substring_def min_def max_def Let_def)

lemma in_set_substring:
  assumes "c \<in> set (substring s a b)"
  shows "\<exists>j. min a b \<le> j \<and> j < max a b \<and> j < length s \<and> s ! j = c"
proof -
  define lo where "lo = min (min a (length s)) (min b (length s))"
  define hi where "hi = max (min a (length s)) (min b (length s))"
  from assms have "c \<in> set (take (hi - lo) (drop lo s))"
    by (simp add: substring_def lo_def hi_def Let_def)
  then obtain k where k: "k < length (take (hi - lo) (drop lo s))"
      "take (hi - lo) (drop lo s) ! k = c"
    by (auto simp: in_set_conv_nth)
  then have "k < hi - lo" "lo + k < length s" "s ! (lo + k) = c"
    by auto
  moreover have "min a b \<le> lo + k" "lo + k < max a b"
    using \<open>k < hi - lo\<close> \<open>lo + k < length s\<close> by (auto simp: lo_def hi_def min_def max_def split: if_splits)
  ultimately show ?thesis by blast
qed

lemma charCodeAt_Some:
  "charCodeAt s (int i) = Some n \<longleftrightarrow> i < length s \<and> of_char (s ! i) = n"
  by (auto simp: charCodeAt_def)

lemma of_char_slash: "(of_char c = SLASH) = (c = CHR ''/'')"
proof -
  have "(of_char c :: nat) = of_char (CHR ''/'') \<longleftrightarrow> c = CHR ''/''"
    by (rule of_char_eq_iff)
  then show ?thesis by (simp add: SLASH_def)
qed

lemma of_char_asterix: "(of_char c = ASTERIX) = (c = CHR ''*'')"
proof -
  have "(of_char c :: nat) = of_char (CHR ''*'') \<longleftrightarrow> c = CHR ''*''"
    by (rule of_char_eq_iff)
  then show ?thesis by (simp add: ASTERIX_def)
qed

lemma scan_static_no_slash:
  "i \<le> j \<Longrightarrow> j < scan_static p n i \<Longrightarrow> j < length p \<Longrightarrow> p ! j \<noteq> CHR ''/''"
proof (induction p n i rule: scan_static.induct)
  case (1 p n i)
  show ?case
  proof (cases "i < n \<and> charCodeAt p (int i) \<noteq> Some SLASH")
    case True
    then have step: "scan_static p n i = scan_static p n (i + 1)"
      by (subst scan_static.simps) simp
    show ?thesis
    proof (cases "j = i")
      case True
      with \<open>i < n \<and> charCodeAt p (int i) \<noteq> Some SLASH\<close> 1(4) show ?thesis
        by (simp add: charCodeAt_Some of_char_slash)
    next
      case False
      with 1 True step show ?thesis by simp
    qed
  next
    case False
    then have "scan_static p n i = i"
      by (subst scan_static.simps) auto
    with 1 show ?thesis by simp
  qed
qed

lemma scan_parameter_no_slash:
  "scan_parameter p n i r t = (i', r', t') \<Longrightarrow>
   i \<le> j \<Longrightarrow> j < i' \<Longrightarrow> j < length p \<Longrightarrow> p ! j \<noteq> CHR ''/''"
proof (induction p n i r t rule: scan_parameter.induct)
  case (1 p n i r t)
  show ?case
  proof (cases "i < n \<and> charCodeAt p (int i) \<noteq> Some SLASH")
    case True
    show ?thesis
    proof (cases "j = i")
      case True
      with \<open>i < n \<and> charCodeAt p (int i) \<noteq> Some SLASH\<close> 1(6) show ?thesis
        by (simp add: charCodeAt_Some of_char_slash)
    next
      case False
      show ?thesis
      proof (cases "charCodeAt p (int i) = Some QUESTION_MARK")
        case q: True
        with True 1(3) have "scan_parameter p n (i + 1) i OPTIONAL = (i', r', t')"
          by (subst (asm) scan_parameter.simps) simp
        from 1(1)[OF True q this] False 1(4,5,6) show ?thesis by simp
      next
        case q: False
        with True 1(3) have "scan_parameter p n (i + 1) r t = (i', r', t')"
          by (subst (asm) scan_parameter.simps) simp
        from 1(2)[OF True q this] False 1(4,5,6) show ?thesis by simp
      qed
    qed
  next
    case False
    with 1(3) have "i' = i"
      by (subst (asm) scan_parameter.simps) auto
    with 1 show ?thesis by simp
  qed
qed

lemma scan_parameter_reset:
  "scan_parameter p n i r t = (i', r', t') \<Longrightarrow> r' = r \<or> (i \<le> r' \<and> r' < i')"
proof (induction p n i r t rule: scan_parameter.induct)
  case (1 p n i r t)
  show ?case
  proof (cases "i < n \<and> charCodeAt p (int i) \<noteq> Some SLASH")
    case True
    show ?thesis
    proof (cases "charCodeAt p (int i) = Some QUESTION_MARK")
      case q: True
      with True 1(3) have s: "scan_parameter p n (i + 1) i OPTIONAL = (i', r', t')"
        by (subst (asm) scan_parameter.simps) simp
      from 1(1)[OF True q s] scan_parameter_ge[OF s] show ?thesis by auto
    next
      case q: False
      with True 1(3) have s: "scan_parameter p n (i + 1) r t = (i', r', t')"
        by (subst (asm) scan_parameter.simps) simp
      from 1(2)[OF True q s] show ?thesis by auto
    qed
  next
    case False
    with 1(3) have "r' = r"
      by (subst (asm) scan_parameter.simps) auto
    then show ?thesis by simp
  qed
qed


lemma scan_parameter_type:
  "scan_parameter p n i r t = (i', r', t') \<Longrightarrow> t' = t \<or> t' = OPTIONAL"
proof (induction p n i r t rule: scan_parameter.induct)
  case (1 p n i r t)
  show ?case
  proof (cases "i < n \<and> charCodeAt p (int i) \<noteq> Some SLASH")
    case True
    show ?thesis
    proof (cases "charCodeAt p (int i) = Some QUESTION_MARK")
      case q: True
      with True 1(3) have s: "scan_parameter p n (i + 1) i OPTIONAL = (i', r', t')"
        by (subst (asm) scan_parameter.simps) simp
      from 1(1)[OF True q s] show ?thesis by auto
    next
      case q: False
      with True 1(3) have s: "scan_parameter p n (i + 1) r t = (i', r', t')"
        by (subst (asm) scan_parameter.simps) simp
      from 1(2)[OF True q s] show ?thesis by auto
    qed
  next
    case False
    with 1(3) have "t' = t"
      by (subst (asm) scan_parameter.simps) auto
    then show ?thesis by simp
  qed
qed

lemma parse_loop_ok:
  assumes "list_all (segment_ok full) result"
    and "pattern = drop d full"
    and "pattern_length = length pattern"
  shows "list_all (segment_ok full) (parse_loop original pattern pattern_length index result)"
  using assms
proof (induction original pattern pattern_length index result arbitrary: d
    rule: parse_loop.induct)
  case (1 original pattern pattern_length index result)
  note res = 1(4) and pat = 1(5) and len = 1(6)
  show ?case
  proof (cases "index < pattern_length")
    case False
    then have "parse_loop original pattern pattern_length index result = result"
      by (subst parse_loop.simps) simp
    with res show ?thesis by simp
  next
    case True
    show ?thesis
    proof (cases "charCodeAt pattern (int index) = Some COLON")
      case colon: True
      obtain index' reset_index type where
        run: "scan_parameter pattern pattern_length index 0 PARAMETER = (index', reset_index, type)"
        by (cases "scan_parameter pattern pattern_length index 0 PARAMETER")
      let ?seg = "\<lparr>seg_original = original, seg_type = type,
          seg_value = substring pattern (index + 1)
            (if reset_index = 0 then index' else reset_index)\<rparr>"
      from scan_parameter_type[OF run] have ty: "type \<noteq> ANY"
        by auto
      from scan_parameter_colon[OF True colon run] have lt: "index < index'"
        by simp
      from scan_parameter_reset[OF run] have rs: "reset_index = 0 \<or> (index \<le> reset_index \<and> reset_index < index')"
        by simp
      have "CHR ''/'' \<notin> set (seg_value ?seg)"
      proof
        assume "CHR ''/'' \<in> set (seg_value ?seg)"
        then obtain j where j: "min (index + 1) (if reset_index = 0 then index' else reset_index) \<le> j"
            "j < max (index + 1) (if reset_index = 0 then index' else reset_index)"
            "j < length pattern" "pattern ! j = CHR ''/''"
          using in_set_substring[of "CHR ''/''" pattern "index + 1"
              "if reset_index = 0 then index' else reset_index"]
          by auto
        from j(1,2) lt rs have "index \<le> j" "j < index'"
          by (auto simp: min_def max_def split: if_splits)
        from scan_parameter_no_slash[OF run this j(3)] j(4) show False
          by simp
      qed
      with ty have ok: "segment_ok full ?seg"
        by (simp add: segment_ok_def)
      have step: "parse_loop original pattern pattern_length index result =
          parse_loop original (substring_from pattern index') (pattern_length - index') (0 + 1)
            (result @ [?seg])"
        using True colon run by (subst parse_loop.simps) simp
      have "list_all (segment_ok full)
          (parse_loop original (substring_from pattern index') (pattern_length - index') (0 + 1)
            (result @ [?seg]))"
      proof (rule 1(1)[OF True refl colon run[symmetric] refl, of "d + index'"])
        show "list_all (segment_ok full) (result @ [?seg])"
          using res ok by simp
        show "substring_from pattern index' = drop (d + index') full"
          by (simp add: substring_from_drop pat add.commute)
        show "pattern_length - index' = length (substring_from pattern index')"
          by (simp add: substring_from_drop len)
      qed
      with step show ?thesis by simp
    next
      case nocolon: False
      show ?thesis
      proof (cases "charCodeAt pattern (int index) = Some ASTERIX")
        case star: True
        let ?seg = "\<lparr>seg_original = original, seg_type = ANY,
            seg_value = substring_from pattern index\<rparr>"
        from star have idx: "index < length pattern" "pattern ! index = CHR ''*''"
          by (simp_all add: charCodeAt_Some of_char_asterix)
        with pat have "d + index < length full" "full ! (d + index) = CHR ''*''"
          by auto
        moreover have "seg_value ?seg = drop (d + index) full"
          by (simp add: substring_from_drop pat add.commute)
        ultimately have ok: "segment_ok full ?seg"
          by (auto simp: segment_ok_def list_ex_iff intro!: bexI[of _ "d + index"])
        have step: "parse_loop original pattern pattern_length index result =
            parse_loop original pattern pattern_length (index + 1) (result @ [?seg])"
          using True nocolon star by (subst parse_loop.simps) simp
        have "list_all (segment_ok full)
            (parse_loop original pattern pattern_length (index + 1) (result @ [?seg]))"
        proof (rule 1(2)[OF True refl nocolon star, of d])
          show "list_all (segment_ok full) (result @ [?seg])"
            using res ok by simp
        qed (rule pat, rule len)
        with step show ?thesis by simp
      next
        case nostar: False
        define index' where "index' = scan_static pattern pattern_length index"
        let ?seg = "\<lparr>seg_original = original, seg_type = STATIC,
            seg_value = substring pattern index index'\<rparr>"
        have "CHR ''/'' \<notin> set (seg_value ?seg)"
        proof
          assume "CHR ''/'' \<in> set (seg_value ?seg)"
          then obtain j where j: "min index index' \<le> j" "j < max index index'"
              "j < length pattern" "pattern ! j = CHR ''/''"
            using in_set_substring[of "CHR ''/''" pattern index index'] by auto
          from scan_static_ge[of index pattern pattern_length] j(1,2)
          have "index \<le> j" "j < scan_static pattern pattern_length index"
            by (auto simp: index'_def min_def max_def split: if_splits)
          from scan_static_no_slash[OF this j(3)] j(4) show False
            by simp
        qed
        then have ok: "segment_ok full ?seg"
          by (simp add: segment_ok_def)
        have step: "parse_loop original pattern pattern_length index result =
            parse_loop original (substring_from pattern index') (pattern_length - index') (0 + 1)
              (result @ [?seg])"
          using True nocolon nostar by (subst parse_loop.simps) (simp add: index'_def Let_def)
        have "list_all (segment_ok full)
            (parse_loop original (substring_from pattern index') (pattern_length - index') (0 + 1)
              (result @ [?seg]))"
        proof (rule 1(3)[OF True refl nocolon nostar refl index'_def, of "d + index'"])
          show "list_all (segment_ok full) (result @ [?seg])"
            using res ok by simp
          show "substring_from pattern index' = drop (d + index') full"
            by (simp add: substring_from_drop pat add.commute)
          show "pattern_length - index' = length (substring_from pattern index')"
            by (simp add: substring_from_drop len)
        qed
        with step show ?thesis by simp
      qed
    qed
  qed
qed

text \<open>
  Claim C6 (as amended). The compiler returns a list of segments (flat by its type). When
  the cleaned pattern is the separator, the list is the single Static segment whose value
  is the separator. Otherwise every Static, Parameter and Optional segment has a value
  without a slash, and the value of every Any segment is the cleaned pattern from its
  asterisk to the end (so it holds a slash whenever a slash follows the asterisk).
\<close>

theorem compiled_segments:
  "if clean pattern0 = SEPARATOR
   then parseRoutePattern pattern0 =
          [\<lparr>seg_original = pattern0, seg_type = STATIC, seg_value = SEPARATOR\<rparr>]
   else list_all (segment_ok (clean pattern0)) (parseRoutePattern pattern0)"
proof (cases "clean pattern0 = SEPARATOR")
  case True
  then show ?thesis by (simp add: parseRoutePattern_def Let_def)
next
  case False
  have "list_all (segment_ok (clean pattern0))
      (parse_loop pattern0 (clean pattern0) (length (clean pattern0)) 0 [])"
    by (rule parse_loop_ok[where d = 0]) simp_all
  with False show ?thesis by (simp add: parseRoutePattern_def Let_def)
qed

lemma parse_files_star_more:
  "parseRoutePattern ''/files/*/more'' =
     [\<lparr>seg_original = ''/files/*/more'', seg_type = STATIC, seg_value = ''files''\<rparr>,
      \<lparr>seg_original = ''/files/*/more'', seg_type = ANY, seg_value = ''*/more''\<rparr>,
      \<lparr>seg_original = ''/files/*/more'', seg_type = STATIC, seg_value = []\<rparr>,
      \<lparr>seg_original = ''/files/*/more'', seg_type = STATIC, seg_value = ''more''\<rparr>]"
  by code_simp

lemma clean_files_star_more: "clean ''/files/*/more'' = ''files/*/more''"
  by code_simp

lemma parse_root:
  "parseRoutePattern ''/'' = [\<lparr>seg_original = ''/'', seg_type = STATIC, seg_value = ''/''\<rparr>]"
  by code_simp

theorem compiled_segments_witness:
  "list_all (segment_ok ''files/*/more'')
     [\<lparr>seg_original = ''/files/*/more'', seg_type = STATIC, seg_value = ''files''\<rparr>,
      \<lparr>seg_original = ''/files/*/more'', seg_type = ANY, seg_value = ''*/more''\<rparr>,
      \<lparr>seg_original = ''/files/*/more'', seg_type = STATIC, seg_value = []\<rparr>,
      \<lparr>seg_original = ''/files/*/more'', seg_type = STATIC, seg_value = ''more''\<rparr>]"
  using compiled_segments[of "''/files/*/more''"]
  by (simp add: clean_files_star_more parse_files_star_more SEPARATOR_def)

text \<open>
  Claim C6 as stated fails: the Any segment of \<^verbatim>\<open>/files/*/more\<close> has the value
  \<^verbatim>\<open>*/more\<close>, and the only segment of the root pattern has the value \<^verbatim>\<open>/\<close>.
\<close>

theorem wildcard_value_holds_separator:
  "seg_type (parseRoutePattern ''/files/*/more'' ! 1) = ANY
   \<and> seg_value (parseRoutePattern ''/files/*/more'' ! 1) = ''*/more''
   \<and> CHR ''/'' \<in> set (seg_value (parseRoutePattern ''/files/*/more'' ! 1))
   \<and> CHR ''/'' \<in> set (seg_value (parseRoutePattern ''/'' ! 0))"
  by (simp add: parse_files_star_more parse_root)

subsection \<open>Invariants of the chain\<close>

lemma run_invariant:
  assumes "P st"
    and "\<And>l c st. P st \<Longrightarrow> P (finish this l c st)"
    and "\<And>b st. P st \<Longrightarrow> P (emit (ResponseEnd b) st)"
    and "\<And>l e st. P st \<Longrightarrow> P (handleError this e (emit (PassedError l e) st))"
    and "\<And>st new st'. P st \<Longrightarrow> loop this handlers st = (new, st') \<Longrightarrow> P st'"
  shows "P (run this handlers stack st)"
  using assms
proof (induction this handlers stack st rule: run.induct)
  case (1 this handlers st)
  then show ?case by simp
next
  case (2 this handlers l nxt c stack st)
  from 2(2) have "P (finish this l c st)"
    by (rule 2(3))
  from 2(1)[OF this 2(3) 2(4) 2(5) 2(6)] show ?case by simp
next
  case (3 this handlers l nxt b as c stack st)
  from 3(2) have "P (emit (ResponseEnd b) st)"
    by (rule 3(4))
  from 3(1)[OF this 3(3) 3(4) 3(5) 3(6)] show ?case by simp
next
  case (4 this handlers l nxt arg as c stack st)
  note fin = 4(5) and wr = 4(6) and pass = 4(7) and lp = 4(8)
  show ?case
  proof (cases nxt)
    case False
    from 4(4) have "P (finish this l (Throws (TypeError ''nxt is not a function'')) st)"
      by (rule fin)
    from 4(1)[OF False this fin wr pass lp] False show ?thesis by simp
  next
    case True
    show ?thesis
    proof (cases arg)
      case (Some error)
      from 4(4) have "P (handleError this error (emit (PassedError l error) st))"
        by (rule pass)
      from 4(3)[OF _ Some this fin wr pass lp] True Some show ?thesis by simp
    next
      case None
      obtain new st' where l: "loop this handlers st = (new, st')"
        by (cases "loop this handlers st")
      have "P st'"
        using lp[OF 4(4) l] .
      from 4(2)[OF _ None l[symmetric] this fin wr pass lp] True None l
      show ?thesis by simp
    qed
  qed
qed


lemma d_request_emit [simp]: "d_request (emit ev st) = d_request st"
  by (simp add: emit_def)

lemma trace_emit [simp]: "trace (emit ev st) = trace st @ [ev]"
  by (simp add: emit_def)

lemma attached_emit [simp]: "attached (emit ev st) = attached st"
  by (simp add: emit_def)

lemma trace_handleError:
  "trace (handleError this e st) = trace st @ handling (effective_handler this) e"
  by (simp add: handleError_def call_error_handler_def defaultErrorHandler_def
      effective_handler_def handling_def split: option.splits error_handler.splits)

lemma d_request_handleError [simp]: "d_request (handleError this e st) = d_request st"
  by (simp add: handleError_def call_error_handler_def defaultErrorHandler_def
      split: option.splits error_handler.splits)

lemma d_request_finish [simp]: "d_request (finish this l c st) = d_request st"
  by (simp add: finish_def split: completion.splits returned.splits)

lemma d_request_loop: "loop this handlers st = (new, st') \<Longrightarrow> d_request st' = d_request st"
  by (auto simp: loop_def Let_def split: option.splits)

lemma d_request_run: "d_request (run this handlers stack st) = d_request st"
proof -
  have "d_request (run this handlers stack st) = d_request st"
    by (rule run_invariant[where P = "\<lambda>s. d_request s = d_request st"])
       (simp_all add: d_request_loop)
  then show ?thesis .
qed

lemma calls_ok_emit:
  "calls_ok r st \<Longrightarrow> carries r ev \<Longrightarrow> calls_ok r (emit ev st)"
  by (simp add: calls_ok_def)

lemma calls_ok_handleError: "calls_ok r st \<Longrightarrow> calls_ok r (handleError this e st)"
  by (simp add: calls_ok_def trace_handleError handling_def carries_def)

lemma calls_ok_finish: "calls_ok r st \<Longrightarrow> calls_ok r (finish this l c st)"
  by (auto simp: finish_def calls_ok_def trace_handleError handling_def carries_def
      split: completion.splits returned.splits)

lemma calls_ok_loop:
  "calls_ok r st \<Longrightarrow> loop this handlers st = (new, st') \<Longrightarrow> calls_ok r st'"
  by (auto simp: loop_def Let_def calls_ok_def trace_handleError handling_def carries_def
      split: option.splits)

lemma calls_ok_run:
  assumes "calls_ok r st"
  shows "calls_ok r (run this handlers stack st)"
proof (rule run_invariant[where P = "calls_ok r"])
  show "calls_ok r st" by fact
  show "calls_ok r (finish this l c s)" if "calls_ok r s" for l c s
    using that by (rule calls_ok_finish)
  show "calls_ok r (emit (ResponseEnd b) s)" if "calls_ok r s" for b s
    using that by (simp add: calls_ok_emit carries_def)
  show "calls_ok r (handleError this e (emit (PassedError l e) s))" if "calls_ok r s" for l e s
    using that by (simp add: calls_ok_handleError calls_ok_emit carries_def)
  show "calls_ok r s'" if "calls_ok r s" "loop this handlers s = (new, s')" for s new s'
    using that by (rule calls_ok_loop)
qed


subsection \<open>Errors reach the error handler\<close>










definition call_due :: "event \<Rightarrow> js_error set" where
  "call_due ev = (case ev of Called h r n \<Rightarrow> due n (body h) (completion h) | _ \<Rightarrow> {})"

definition called_due :: "dispatch \<Rightarrow> js_error set" where
  "called_due st = \<Union> (call_due ` set (trace st))"

definition rejections :: "(string \<times> js_error option) list \<Rightarrow> js_error set" where
  "rejections pending = {e. \<exists>l. (l, Some e) \<in> set pending}"

definition covered :: "app \<Rightarrow> dispatch \<Rightarrow> js_error set" where
  "covered this st =
     set (handled (effective_handler this) (trace st)) \<union> rejections (attached st)"




lemma called_handlers_append: "called_handlers (t @ u) = called_handlers t @ called_handlers u"
  by (induction t rule: called_handlers.induct) simp_all


lemma called_handlers_handling: "called_handlers (handling h e) = []"
  by (simp add: handling_def)

lemma call_due_handling: "ev \<in> set (handling h e) \<Longrightarrow> call_due ev = {}"
  by (auto simp: handling_def call_due_def split: if_splits)

lemma attached_handleError [simp]: "attached (handleError this e st) = attached st"
  by (simp add: handleError_def call_error_handler_def defaultErrorHandler_def
      split: option.splits error_handler.splits)


lemma called_due_handleError [simp]: "called_due (handleError this e st) = called_due st"
  by (auto simp: called_due_def trace_handleError call_due_handling)


lemma called_due_emit: "called_due (emit ev st) = called_due st \<union> call_due ev"
  by (auto simp: called_due_def)


lemma called_due_finish [simp]: "called_due (finish this l c st) = called_due st"
proof (cases c)
  case (Throws e)
  then show ?thesis
    by (simp add: finish_def called_due_emit call_due_def)
next
  case (Returns r)
  then show ?thesis
    by (cases r) (simp_all add: finish_def called_due_def)
qed

lemma covered_handler_index [simp]:
  "covered this (st\<lparr>handler_index := k\<rparr>) = covered this st"
  by (simp add: covered_def)

lemma called_due_handler_index [simp]:
  "called_due (st\<lparr>handler_index := k\<rparr>) = called_due st"
  by (simp add: called_due_def)










text \<open>The handlers called are an initial part of the chain.\<close>

lemma called_handlers_handleError [simp]:
  "called_handlers (trace (handleError this e st)) = called_handlers (trace st)"
  by (simp add: trace_handleError called_handlers_append called_handlers_handling)

lemma called_handlers_finish [simp]:
  "called_handlers (trace (finish this l c st)) = called_handlers (trace st)"
proof (cases c)
  case (Throws e)
  then show ?thesis by (simp add: finish_def called_handlers_append)
next
  case (Returns r)
  then show ?thesis by (cases r) (simp_all add: finish_def)
qed






subsection \<open>Request augmentation\<close>

lemma findRoute_new_app: "findRoute (new_app eh) m ''/a'' = Inr None"
  by (simp add: findRoute_def routes_new_app or_empty_def Let_def matchRoutePattern_def)

text \<open>
  Claim C7 as stated fails: with no route registered, the request for \<^verbatim>\<open>/a\<close> gets the
  response \<^verbatim>\<open>404\<close> and its fields \<^verbatim>\<open>path\<close>, \<^verbatim>\<open>query\<close> and \<^verbatim>\<open>search\<close> are still unset.
\<close>

theorem no_match_leaves_request_unaugmented:
  "handleRequest no_native (new_app None)
     \<lparr>req_url = ''/a'', req_method = ''GET'', req_path = None, req_query = None,
      req_search = None\<rparr> =
   Inr \<lparr>d_request = \<lparr>req_url = ''/a'', req_method = ''GET'', req_path = None,
            req_query = None, req_search = None\<rparr>,
        handler_index = 0, trace = [ResponseEnd ''404''], attached = []\<rparr>"
  by (simp add: handleRequest_def parseUrl_a findRoute_new_app Let_def emit_def)

text \<open>
  Claim C7 (as amended). The URL is parsed before the matcher runs, and the three fields
  are attached only once the matcher has returned a route: when \<^verbatim>\<open>handleRequest\<close>
  returns, either the matcher found no route, the request is unchanged and the response is
  \<^verbatim>\<open>404\<close>; or it found one, the request holds the three fields and every handler that
  was called was given the request with them. (An exception of the matcher leaves
  \<^verbatim>\<open>handleRequest\<close>, which then does not return.)
\<close>

theorem request_augmented_after_match:
  assumes "handleRequest npu this request = Inr st"
    and "pu_pathname (parseUrl npu (req_url request)) = Some pathname"
  shows "case findRoute this (req_method request) pathname of
           Inl e \<Rightarrow> False
         | Inr None \<Rightarrow> d_request st = request \<and> trace st = [ResponseEnd ''404'']
         | Inr (Some route_set) \<Rightarrow>
             calls_ok (augmented (parseUrl npu (req_url request)) request) st"
proof (cases "findRoute this (req_method request) pathname")
  case (Inl e)
  with assms show ?thesis
    by (simp add: handleRequest_def Let_def)
next
  case (Inr found)
  show ?thesis
  proof (cases found)
    case None
    with Inr assms show ?thesis
      by (auto simp: handleRequest_def Let_def emit_def)
  next
    case (Some route_set)
    let ?r = "augmented (parseUrl npu (req_url request)) request"
    let ?st1 = "\<lparr>d_request = ?r, handler_index = 0, trace = [], attached = []\<rparr>"
    have ok: "calls_ok ?r ?st1"
      by (simp add: calls_ok_def)
    have r: "request\<lparr>req_path := Some pathname,
        req_query := pu_query (parseUrl npu (req_url request)),
        req_search := pu_search (parseUrl npu (req_url request))\<rparr> = ?r"
      using assms(2) by (simp add: augmented_def)
    from assms Inr Some r have "calls_ok ?r st"
      by (auto simp: handleRequest_def Let_def read_const_def
          split: prod.splits if_splits
          intro!: calls_ok_run calls_ok_handleError[OF ok] dest: calls_ok_loop[OF ok])
    with Inr Some show ?thesis by simp
  qed
qed

subsection \<open>Path-scoped middleware\<close>

lemma handleError_base_middlewares [simp]:
  "handleError (this\<lparr>base_middlewares := b\<rparr>) = handleError this"
  by (rule ext)+ (simp add: handleError_def)

lemma finish_base_middlewares [simp]:
  "finish (this\<lparr>base_middlewares := b\<rparr>) = finish this"
  by (rule ext)+ (simp add: finish_def split: completion.splits returned.splits)

lemma loop_base_middlewares [simp]:
  "loop (this\<lparr>base_middlewares := b\<rparr>) = loop this"
  by (rule ext)+ (simp add: loop_def Let_def split: option.splits)

lemma run_base_middlewares:
  "run (this\<lparr>base_middlewares := b\<rparr>) handlers stack st = run this handlers stack st"
  by (induction this handlers stack st rule: run.induct)
     (auto split: option.splits prod.splits)

lemma findRoute_base_middlewares [simp]:
  "findRoute (this\<lparr>base_middlewares := b\<rparr>) = findRoute this"
  by (rule ext)+ (simp add: findRoute_def)

lemma handleRequest_base_middlewares:
  "handleRequest npu (this\<lparr>base_middlewares := b\<rparr>) request = handleRequest npu this request"
  by (simp add: handleRequest_def Let_def run_base_middlewares
      split: option.splits sum.splits prod.splits)

lemma settle_from_base_middlewares:
  "settle_from (this\<lparr>base_middlewares := b\<rparr>) pending st = settle_from this pending st"
  by (induction this pending st rule: settle_from.induct) (simp_all add: catchError_def)

text \<open>
  Claim C8. \<^verbatim>\<open>use(path, ...handlers)\<close> with a path other than the separator appends the
  handlers to the bucket of the path (with a leading separator) in \<^verbatim>\<open>base_middlewares\<close>
  and leaves the global middleware list, the route table and the error handler as they
  were; matching, dispatch and the delivery of rejections do not depend on
  \<^verbatim>\<open>base_middlewares\<close> (they are the same for every content \<open>b\<close> of it), so every
  request is handled as before the call.
\<close>

theorem use_path_only_fills_bucket:
  assumes "path \<noteq> SEPARATOR"
  shows "middlewares (use this (Path path) hs) = middlewares this
       \<and> routes (use this (Path path) hs) = routes this
       \<and> error_handler (use this (Path path) hs) = error_handler this
       \<and> base_middlewares (use this (Path path) hs) =
           (base_middlewares this)(appendSeparator path \<mapsto>
              or_empty (base_middlewares this (appendSeparator path)) @ hs)
       \<and> findRoute (use this (Path path) hs) method url = findRoute this method url
       \<and> handleRequest npu (use this (Path path) hs) request = handleRequest npu this request
       \<and> settle (use this (Path path) hs) st = settle this st
       \<and> findRoute (this\<lparr>base_middlewares := b\<rparr>) method url = findRoute this method url
       \<and> handleRequest npu (this\<lparr>base_middlewares := b\<rparr>) request =
           handleRequest npu this request
       \<and> settle (this\<lparr>base_middlewares := b\<rparr>) st = settle this st"
  using assms
  by (simp add: Let_def handleRequest_base_middlewares settle_def settle_from_base_middlewares)


subsection \<open>The optional parameter\<close>

lemma parse_users_id_opt:
  "parseRoutePattern ''/users/:id?'' =
     [\<lparr>seg_original = ''/users/:id?'', seg_type = STATIC, seg_value = ''users''\<rparr>,
      \<lparr>seg_original = ''/users/:id?'', seg_type = OPTIONAL, seg_value = ''id''\<rparr>]"
  by code_simp

lemma clean_slash_users: "clean ''/users'' = ''users''"
  by code_simp

lemma clean_slash_users_5: "clean ''/users/5'' = ''users/5''"
  by code_simp

lemma clean_users_5: "clean ''users/5'' = ''users/5''"
  by code_simp

lemma split_users_5: "split_url ''users/5'' = [''users'', ''5'']"
  by code_simp

lemma findRoute_optional_absent:
  "findRoute (addRoute (new_app eh) ''GET'' ''/users/:id?'' hs) ''GET'' ''/users''
   = Inr (Some \<lparr>params = [''users'' \<mapsto> ''users''], found_handlers = hs\<rparr>)"
  by (simp add: findRoute_def routes_addRoute routes_new_app or_empty_def Let_def
      clean_slash_users clean_users split_users parse_users_id_opt matchRoutePattern_def
      isFullMatch_def isMatch_def at_index_def exec_def SEPARATOR_def)

lemma findRoute_optional_present:
  "findRoute (addRoute (new_app eh) ''GET'' ''/users/:id?'' hs) ''GET'' ''/users/5''
   = Inr (Some \<lparr>params = [''users'' \<mapsto> ''users'', ''id'' \<mapsto> ''5''],
                 found_handlers = hs\<rparr>)"
  by (simp add: findRoute_def routes_addRoute routes_new_app or_empty_def Let_def
      clean_slash_users_5 clean_users_5 split_users_5 parse_users_id_opt matchRoutePattern_def
      isFullMatch_def isMatch_def at_index_def exec_def SEPARATOR_def)

text \<open>
  Claim C4 (the code does otherwise). The pattern \<^verbatim>\<open>/users/:id?\<close> matches both paths,
  as claimed, but the parameters are not the claimed ones: \<^verbatim>\<open>exec\<close> also records the
  Static segment, so \<^verbatim>\<open>/users\<close> yields the entry \<open>users \<mapsto> users\<close> and \<^verbatim>\<open>/users/5\<close>
  yields that entry and \<open>id \<mapsto> 5\<close>.
\<close>

theorem optional_params_include_static:
  "findRoute (addRoute (new_app eh) ''GET'' ''/users/:id?'' hs) ''GET'' ''/users''
   = Inr (Some \<lparr>params = [''users'' \<mapsto> ''users''], found_handlers = hs\<rparr>)
   \<and> findRoute (addRoute (new_app eh) ''GET'' ''/users/:id?'' hs) ''GET'' ''/users/5''
   = Inr (Some \<lparr>params = [''users'' \<mapsto> ''users'', ''id'' \<mapsto> ''5''],
                 found_handlers = hs\<rparr>)"
  using findRoute_optional_absent findRoute_optional_present by simp

subsection \<open>No route\<close>

text \<open>
  Claim C9. When the matcher finds no route for the method and the path of the request,
  \<^verbatim>\<open>handleRequest\<close> returns with the single event of writing \<^verbatim>\<open>404\<close> to the response:
  no handler and no error handler is called, nothing is attached, and no callback is left
  to run later.
\<close>

theorem no_match_writes_404:
  assumes "pu_pathname (parseUrl npu (req_url request)) = Some pathname"
    and "findRoute this (req_method request) pathname = Inr None"
  shows "handleRequest npu this request =
           Inr \<lparr>d_request = request, handler_index = 0, trace = [ResponseEnd ''404''],
                attached = []\<rparr>
         \<and> settle this \<lparr>d_request = request, handler_index = 0,
                trace = [ResponseEnd ''404''], attached = []\<rparr> =
           \<lparr>d_request = request, handler_index = 0, trace = [ResponseEnd ''404''],
            attached = []\<rparr>"
  using assms by (simp add: handleRequest_def Let_def emit_def settle_def)

theorem no_match_writes_404_witness:
  "handleRequest no_native (new_app (Some ''onError''))
     \<lparr>req_url = ''/a'', req_method = ''GET'', req_path = None, req_query = None,
      req_search = None\<rparr> =
   Inr \<lparr>d_request = \<lparr>req_url = ''/a'', req_method = ''GET'', req_path = None,
            req_query = None, req_search = None\<rparr>,
        handler_index = 0, trace = [ResponseEnd ''404''], attached = []\<rparr>"
proof -
  let ?rq = "\<lparr>req_url = ''/a'', req_method = ''GET'', req_path = None, req_query = None,
      req_search = None\<rparr>"
  have p: "pu_pathname (parseUrl no_native (req_url ?rq)) = Some ''/a''"
    by (simp add: parseUrl_a)
  have f: "findRoute (new_app (Some ''onError'')) (req_method ?rq) ''/a'' = Inr None"
    by (simp add: findRoute_new_app)
  from no_match_writes_404[OF p f] show ?thesis by simp
qed

subsection \<open>The example application, run\<close>

lemma parseUrl_example:
  "parseUrl npu ''/a?x=1'' = \<lparr>pu_path = Some ''/a?x=1'', pu_href = Some ''/a?x=1'',
     pu_pathname = Some ''/a'', pu_query = Some ''x=1'', pu_search = Some ''?x=1''\<rparr>"
  by (simp add: parseUrl_def parseUrl_loop.simps charCodeAt_def char_codes substring_def
      substring_from_def Let_def)

lemma findRoute_example:
  "findRoute example_app ''GET'' ''/a''
   = Inr (Some \<lparr>params = [''a'' \<mapsto> ''a''], found_handlers = [example_handler]\<rparr>)"
  by (simp add: example_app_def findRoute_def routes_addRoute routes_new_app or_empty_def
      clean_slash_a match_a exec_a Let_def)

lemma middlewares_example: "middlewares example_app = [example_middleware]"
  by (simp add: example_app_def middlewares_new_app)

lemma error_handler_example: "error_handler example_app = Some (CustomErrorHandler ''onError'')"
  by (simp add: example_app_def error_handler_new_app)

lemma handleRequest_example:
  "handleRequest npu example_app example_request =
   Inr \<lparr>d_request = example_augmented, handler_index = 2, trace = example_trace,
        attached = [(''mA'', Some (Error ''rejected''))]\<rparr>"
  by (simp add: handleRequest_def example_request_def parseUrl_example findRoute_example
      middlewares_example Let_def loop_def at_index_def emit_def finish_def handleError_def
      call_error_handler_def error_handler_example example_middleware_def
      example_handler_def example_augmented_def example_trace_def)






theorem request_augmented_after_match_witness:
  "calls_ok example_augmented
     \<lparr>d_request = example_augmented, handler_index = 2, trace = example_trace,
      attached = [(''mA'', Some (Error ''rejected''))]\<rparr>"
proof -
  have p: "pu_pathname (parseUrl no_native (req_url example_request)) = Some ''/a''"
    by (simp add: example_request_def parseUrl_example)
  have a: "augmented (parseUrl no_native (req_url example_request)) example_request =
      example_augmented"
    by (simp add: augmented_def example_request_def parseUrl_example example_augmented_def)
  have m: "req_method example_request = ''GET''"
    by (simp add: example_request_def)
  from request_augmented_after_match[OF handleRequest_example[of no_native] p]
  show ?thesis by (simp add: m findRoute_example a)
qed

theorem use_path_only_fills_bucket_witness:
  "base_middlewares (use example_app (Path ''admin'') [example_handler]) ''/admin'' =
     Some [example_handler]
   \<and> middlewares (use example_app (Path ''admin'') [example_handler]) = [example_middleware]
   \<and> handleRequest no_native (use example_app (Path ''admin'') [example_handler])
       example_request =
     Inr \<lparr>d_request = example_augmented, handler_index = 2, trace = example_trace,
          attached = [(''mA'', Some (Error ''rejected''))]\<rparr>"
proof -
  have ne: "''admin'' \<noteq> SEPARATOR"
    by (simp add: SEPARATOR_def)
  have ap: "appendSeparator ''admin'' = ''/admin''"
    by (simp add: appendSeparator_def charCodeAt_def SLASH_def SEPARATOR_def)
  have b: "base_middlewares example_app = Map.empty"
    by (simp add: example_app_def addRoute_def new_app_def Let_def)
  from use_path_only_fills_bucket[OF ne, of example_app "[example_handler]" _ _ no_native
      example_request _ Map.empty]
  show ?thesis
    by (simp add: ap b or_empty_def middlewares_example handleRequest_example)
qed

end
